theory Spec2Isabelle
  imports Complex_Main
begin

section \<open>Data model (types.ts)\<close>

datatype RequestType = HTTPS | HTTP

text \<open>
  \<^verbatim>\<open>Omit<PingResult, 'id' | 'timestamp'>\<close> is the record \<open>Result\<close>; \<open>PingResult\<close> extends it
  with the two fields that \<open>addResult\<close> fills in. \<open>time: number | null\<close> only ever holds
  the value of a \<^verbatim>\<open>Math.round\<close>, an integer; \<open>error?: string\<close> is absent (\<open>None\<close>) or a
  string. \<open>status\<close> is written by the code with the strings OK and Error only.
  The field \<open>id\<close> is named \<open>id_r\<close>, since \<open>id\<close> is the identity function of HOL.
\<close>

record Result =
  type :: RequestType
  time :: "int option"
  status :: string
  error :: "string option"

record PingResult = Result +
  id_r :: nat
  timestamp :: string

section \<open>The component App (App.tsx) and the browser around it\<close>

text \<open>
  One invocation of \<open>runTest\<close> that issued a request leaves a closure behind, to which the
  browser later delivers completion signals. \<open>currentHost\<close> and \<open>probeType\<close> are the
  captured \<open>host\<close> and \<open>requestType\<close>. For the image technique \<open>done_flag\<close> is the
  local variable \<open>done\<close>; for the fetch technique it records that the awaited promise has
  settled and the code after \<^verbatim>\<open>await\<close> has run (a promise settles once).
\<close>

record Probe =
  currentHost :: string
  probeType :: RequestType
  done_flag :: bool

text \<open>
  The state of the component: the eight \<open>useState\<close> cells and the two \<open>useRef\<close> cells, then the
  part of the browser the component talks to: the armed interval timers (handle, and the
  \<open>host\<close> and \<open>requestType\<close> captured by the \<open>runTest\<close> closure given to \<open>setInterval\<close>), the
  next timer handle, and the closures of the \<open>runTest\<close> invocations in the order of issue.
\<close>

record App =
  host :: string
  requestType :: RequestType
  isRunning :: bool
  results :: "PingResult list"
  statusMessage :: string
  averageLatency :: "int option"
  minLatency :: "int option"
  maxLatency :: "int option"
  intervalRef :: "nat option"
  testCounterRef :: nat
  timers :: "(nat \<times> string \<times> RequestType) list"
  nextTimer :: nat
  probes :: "Probe list"

definition App_init :: App where
  "App_init =
     \<lparr>host = ''google.com'', requestType = HTTPS, isRunning = False, results = [],
      statusMessage = ''Ready to start.'', averageLatency = None, minLatency = None,
      maxLatency = None, intervalRef = None, testCounterRef = 0,
      timers = [], nextTimer = 1, probes = []\<rparr>"

subsection \<open>JavaScript library functions\<close>

text \<open>\<^verbatim>\<open>!r.error\<close>: an absent property and the empty string are falsy.\<close>

definition truthy :: "string option \<Rightarrow> bool" where
  "truthy e = (case e of None \<Rightarrow> False | Some v \<Rightarrow> v \<noteq> [])"

text \<open>
  \<^verbatim>\<open>Math.round\<close> returns the nearest integer, the larger one at a tie. The quotient it is
  applied to is taken in the reals: the operands are integers (a sum of at most 39 rounded
  durations, and a count), far below \<open>2^53\<close>, where the double quotient rounds as the exact
  one does.
\<close>

definition Math_round :: "real \<Rightarrow> int" where
  "Math_round x = \<lfloor>x + 1 / 2\<rfloor>"

text \<open>
  \<^verbatim>\<open>Math.min(...ts)\<close> and \<^verbatim>\<open>Math.max(...ts)\<close> on at least one argument. (On no argument
  JavaScript returns an infinity; the component calls them under the guard
  \<open>successfulTests.length > 1\<close>, on a list that lemma \<open>times_nonempty\<close> shows non-empty.)
\<close>

fun Math_min :: "int list \<Rightarrow> int" where
  "Math_min (t # ts) = fold min ts t"

fun Math_max :: "int list \<Rightarrow> int" where
  "Math_max (t # ts) = fold max ts t"

subsection \<open>The statistics effect (App.tsx, lines 20 to 39)\<close>

definition successfulTests :: "PingResult list \<Rightarrow> PingResult list" where
  "successfulTests rs = filter (\<lambda>r. time r \<noteq> None \<and> \<not> truthy (error r)) rs"

definition useEffect_statistics :: "App \<Rightarrow> App" where
  "useEffect_statistics s =
     (if length (successfulTests (results s)) > 1 then
        let testsForCalculation = butlast (successfulTests (results s));
            times = map (\<lambda>r. the (time r)) testsForCalculation;
            totalTime = foldl (\<lambda>acc t. acc + t) 0 times
        in s\<lparr>averageLatency :=
                Some (Math_round (real_of_int totalTime / real (length testsForCalculation))),
              minLatency := Some (Math_min times),
              maxLatency := Some (Math_max times)\<rparr>
      else s\<lparr>averageLatency := None, minLatency := None, maxLatency := None\<rparr>)"

subsection \<open>addResult (lines 41 to 50)\<close>

text \<open>
  \<open>now\<close> is the string \<^verbatim>\<open>new Date().toLocaleTimeString()\<close> at the moment of the call.
  \<^verbatim>\<open>[x, ...prev].slice(0, 40)\<close> is \<open>take 40 (x # prev)\<close>.
\<close>

definition addResult :: "Result \<Rightarrow> string \<Rightarrow> App \<Rightarrow> App" where
  "addResult result now s =
     s\<lparr>results :=
         take 40 (\<lparr>type = type result, time = time result, status = status result,
                   error = error result, id_r = testCounterRef s, timestamp = now\<rparr>
                  # results s),
       testCounterRef := testCounterRef s + 1\<rparr>"

subsection \<open>runTest (lines 52 to 123)\<close>

text \<open>
  The synchronous part of \<open>runTest\<close>, with the captured \<open>host\<close> and \<open>requestType\<close>: the check
  of the host, the status message, and the request being issued (a new closure, not done).
\<close>

definition runTest :: "string \<Rightarrow> RequestType \<Rightarrow> App \<Rightarrow> App" where
  "runTest h rt s =
     (if h = [] then s\<lparr>statusMessage := ''Error: Host is required.''\<rparr>
      else s\<lparr>statusMessage := ''Pinging '' @ h @ ''...'',
             probes := probes s @ [\<lparr>currentHost = h, probeType = rt, done_flag = False\<rparr>]\<rparr>)"

text \<open>\<^verbatim>\<open>const timeout = 2000\<close> and the template \<^verbatim>\<open>`Timeout (${timeout}ms)`\<close>.\<close>

definition timeout :: nat where
  "timeout = 2000"

definition digit :: "nat \<Rightarrow> char" where
  "digit n = ''0123456789'' ! (n mod 10)"

fun decimal :: "nat \<Rightarrow> string" where
  "decimal n = (if n < 10 then [digit n] else decimal (n div 10) @ [digit n])"

declare decimal.simps [simp del]

definition timeout_message :: string where
  "timeout_message = ''Timeout ('' @ decimal timeout @ ''ms)''"

text \<open>What a \<^verbatim>\<open>catch\<close> block can receive: an instance of \<open>Error\<close> with its name, or another value.\<close>

datatype thrown = ErrorInstance string | OtherValue

definition mark_done :: "nat \<Rightarrow> App \<Rightarrow> App" where
  "mark_done k s = s\<lparr>probes := (probes s)[k := (probes s ! k)\<lparr>done_flag := True\<rparr>]\<rparr>"

text \<open>The code after \<^verbatim>\<open>await fetch\<close> (lines 74 to 77); \<open>ms\<close> is \<^verbatim>\<open>Math.round(duration)\<close>.\<close>

definition fetch_then :: "nat \<Rightarrow> int \<Rightarrow> string \<Rightarrow> App \<Rightarrow> App" where
  "fetch_then k ms now s =
     addResult \<lparr>type = probeType (probes s ! k), time = Some ms, status = ''OK'', error = None\<rparr>
       now (mark_done k s)"

text \<open>The \<^verbatim>\<open>catch\<close> block (lines 78 to 89).\<close>

definition errorMsg :: "thrown \<Rightarrow> string" where
  "errorMsg e =
     (case e of
        ErrorInstance name \<Rightarrow>
          if name = ''AbortError'' then timeout_message
          else ''Failed. Check host, network, or console for errors.''
      | OtherValue \<Rightarrow> ''Request failed.'')"

definition fetch_catch :: "nat \<Rightarrow> thrown \<Rightarrow> string \<Rightarrow> App \<Rightarrow> App" where
  "fetch_catch k e now s =
     addResult \<lparr>type = probeType (probes s ! k), time = None, status = ''Error'',
                error = Some (errorMsg e)\<rparr>
       now (mark_done k s)"

text \<open>\<open>recordResult\<close> of the invocation \<open>k\<close> (lines 94 to 107), with its guard on \<open>done\<close>.\<close>

definition recordResult ::
  "nat \<Rightarrow> int option \<Rightarrow> string \<Rightarrow> string option \<Rightarrow> string \<Rightarrow> App \<Rightarrow> App" where
  "recordResult k t st err now s =
     (if done_flag (probes s ! k) then s
      else if st = ''OK'' \<and> t \<noteq> None then
        addResult \<lparr>type = probeType (probes s ! k), time = t, status = st, error = None\<rparr>
          now (mark_done k s)
      else
        addResult \<lparr>type = probeType (probes s ! k), time = None, status = st, error = err\<rparr>
          now (mark_done k s))"

text \<open>\<open>handleSuccess\<close> (lines 113 to 116), the handler of both \<open>onload\<close> and \<open>onerror\<close>.\<close>

definition handleSuccess :: "nat \<Rightarrow> int \<Rightarrow> string \<Rightarrow> App \<Rightarrow> App" where
  "handleSuccess k ms now s = recordResult k (Some ms) ''OK'' None now s"

text \<open>The callback of \<open>setTimeout\<close> (lines 109 to 111).\<close>

definition timeout_callback :: "nat \<Rightarrow> string \<Rightarrow> App \<Rightarrow> App" where
  "timeout_callback k now s = recordResult k None ''Error'' (Some timeout_message) now s"

subsection \<open>handleStartStop (lines 125 to 144)\<close>

definition clearInterval :: "nat \<Rightarrow> App \<Rightarrow> App" where
  "clearInterval h s = s\<lparr>timers := filter (\<lambda>t. fst t \<noteq> h) (timers s)\<rparr>"

definition setInterval :: "string \<Rightarrow> RequestType \<Rightarrow> App \<Rightarrow> App" where
  "setInterval h rt s =
     s\<lparr>timers := timers s @ [(nextTimer s, h, rt)], nextTimer := nextTimer s + 1\<rparr>"

definition handleStartStop :: "App \<Rightarrow> App" where
  "handleStartStop s =
     (if isRunning s then
        (case intervalRef s of
           None \<Rightarrow> s
         | Some h \<Rightarrow> if h \<noteq> 0 then clearInterval h s else s)
          \<lparr>isRunning := False, statusMessage := ''Stopped by user.''\<rparr>
      else if host s = [] then s\<lparr>statusMessage := ''Error: Host cannot be empty.''\<rparr>
      else
        let s1 = s\<lparr>results := [], testCounterRef := 0, isRunning := True,
                    statusMessage := ''Starting tests...''\<rparr>;
            s2 = runTest (host s) (requestType s) s1
        in (setInterval (host s) (requestType s) s2)\<lparr>intervalRef := Some (nextTimer s2)\<rparr>)"


subsection \<open>Events\<close>

text \<open>
  What happens to the component, one event at a time: the two inputs (disabled while
  running), the button, an interval timer firing, and the completion signals that the
  browser delivers to the closure of invocation \<open>k\<close>. The integer of a signal is the
  measured \<^verbatim>\<open>Math.round(endTime - startTime)\<close>, the string the time of day.
  \<open>abort_timeout\<close> is the callback \<^verbatim>\<open>controller.abort()\<close> firing: the pending fetch rejects
  with the \<open>DOMException\<close> named AbortError, an instance of \<open>Error\<close>.

  Each event is handled to its end before the next one: the state updates of a handler,
  the updater function given to \<open>setResults\<close> among them, are applied once and in the order
  of the calls, and the component renders before the next event arrives.
\<close>

datatype event =
    setHost string
  | setRequestType RequestType
  | click
  | tick nat
  | fetch_fulfilled nat int string
  | fetch_rejected nat thrown string
  | abort_timeout nat string
  | img_onload nat int string
  | img_onerror nat int string
  | img_timeout nat string

definition issued :: "RequestType \<Rightarrow> nat \<Rightarrow> App \<Rightarrow> bool" where
  "issued rt k s = (k < length (probes s) \<and> probeType (probes s ! k) = rt)"

definition pending :: "RequestType \<Rightarrow> nat \<Rightarrow> App \<Rightarrow> bool" where
  "pending rt k s = (issued rt k s \<and> \<not> done_flag (probes s ! k))"

text \<open>
  An event that the browser cannot deliver (a timer that is not armed, a signal for a
  closure that does not exist, a second settlement of a promise) changes nothing. The
  signals of an image are delivered whenever its closure exists: what suppresses them
  after the first is the guard of \<open>recordResult\<close>.
\<close>

fun handler :: "event \<Rightarrow> App \<Rightarrow> App" where
  "handler (setHost v) s = (if isRunning s then s else s\<lparr>host := v\<rparr>)"
| "handler (setRequestType t) s = (if isRunning s then s else s\<lparr>requestType := t\<rparr>)"
| "handler click s = handleStartStop s"
| "handler (tick h) s =
     (case map_of (timers s) h of None \<Rightarrow> s | Some (hst, rt) \<Rightarrow> runTest hst rt s)"
| "handler (fetch_fulfilled k ms now) s =
     (if pending HTTPS k s then fetch_then k ms now s else s)"
| "handler (fetch_rejected k e now) s =
     (if pending HTTPS k s then fetch_catch k e now s else s)"
| "handler (abort_timeout k now) s =
     (if pending HTTPS k s then fetch_catch k (ErrorInstance ''AbortError'') now s else s)"
| "handler (img_onload k ms now) s =
     (if issued HTTP k s then handleSuccess k ms now s else s)"
| "handler (img_onerror k ms now) s =
     (if issued HTTP k s then handleSuccess k ms now s else s)"
| "handler (img_timeout k now) s =
     (if issued HTTP k s then timeout_callback k now s else s)"

text \<open>After the handler the component renders, and the statistics effect runs.\<close>

definition step :: "event \<Rightarrow> App \<Rightarrow> App" where
  "step e s = useEffect_statistics (handler e s)"

fun exec :: "App \<Rightarrow> event list \<Rightarrow> App" where
  "exec s [] = s"
| "exec s (e # es) = exec (step e s) es"

section \<open>Reference definitions of the specification\<close>

text \<open>
  The invariant of a \<open>ProbeOutcome\<close> (section 3 of the specification): exactly one of
  "elapsed time present" and "status is Error" holds, a successful outcome carries no error
  message, and an outcome with an error message carries no elapsed time.
\<close>

definition ProbeOutcome_invariant :: "PingResult \<Rightarrow> bool" where
  "ProbeOutcome_invariant r =
     (((time r \<noteq> None) \<noteq> (status r = ''Error'')) \<and>
      (status r = ''OK'' \<longrightarrow> error r = None) \<and>
      (error r \<noteq> None \<longrightarrow> time r = None))"

text \<open>
  \<open>compute\<close> (section 4.3 of the specification), written from its words: keep the
  outcomes with status OK and an elapsed time; with fewer than two of them all three
  statistics are null; otherwise drop the last of them (the oldest) and return the rounded
  mean, the minimum and the maximum of the remaining elapsed times.
\<close>

definition compute :: "PingResult list \<Rightarrow> int option \<times> int option \<times> int option" where
  "compute history =
     (let successful = filter (\<lambda>r. status r = ''OK'' \<and> time r \<noteq> None) history in
      if length successful < 2 then (None, None, None)
      else
        let elapsed = map (\<lambda>r. the (time r)) (butlast successful) in
        (Some (round (real_of_int (sum_list elapsed) / real (length elapsed))),
         Some (Min (set elapsed)), Some (Max (set elapsed))))"

section \<open>Auxiliary definitions\<close>

text \<open>The two shapes of record that the code ever hands to \<open>addResult\<close>.\<close>

definition outcome_shape :: "PingResult \<Rightarrow> bool" where
  "outcome_shape r =
     (case time r of
        Some ms \<Rightarrow> status r = ''OK'' \<and> error r = None
      | None \<Rightarrow> status r = ''Error'' \<and> truthy (error r))"

definition shaped :: "App \<Rightarrow> bool" where
  "shaped s = list_all outcome_shape (results s)"

text \<open>
  \<open>stamp n\<close> is the record that \<open>addResult\<close> builds when the counter is \<open>n\<close>;
  \<open>stamped n outs\<close> stamps a sequence of outcomes with the consecutive counters from \<open>n\<close>
  on; \<open>appends\<close> is a sequence of calls of \<open>addResult\<close>.
\<close>

definition stamp :: "nat \<Rightarrow> Result \<times> string \<Rightarrow> PingResult" where
  "stamp n o_now =
     \<lparr>type = type (fst o_now), time = time (fst o_now), status = status (fst o_now),
      error = error (fst o_now), id_r = n, timestamp = snd o_now\<rparr>"

fun stamped :: "nat \<Rightarrow> (Result \<times> string) list \<Rightarrow> PingResult list" where
  "stamped n [] = []"
| "stamped n (x # xs) = stamp n x # stamped (Suc n) xs"

fun appends :: "(Result \<times> string) list \<Rightarrow> App \<Rightarrow> App" where
  "appends [] s = s"
| "appends (x # xs) s = appends xs (addResult (fst x) (snd x) s)"

text \<open>
  The timer discipline of the component: while it runs, exactly the interval whose handle
  \<open>intervalRef\<close> holds is armed; while it is idle, none is.
\<close>

definition armed :: "App \<Rightarrow> bool" where
  "armed s =
     (0 < nextTimer s \<and>
      (if isRunning s
       then (case intervalRef s of
               None \<Rightarrow> False
             | Some h \<Rightarrow> 0 < h \<and> h < nextTimer s \<and> timers s = [(h, host s, requestType s)])
       else timers s = []))"

text \<open>The closure of invocation \<open>k\<close> exists and has completed.\<close>

definition finished :: "nat \<Rightarrow> App \<Rightarrow> bool" where
  "finished k s = (k < length (probes s) \<and> done_flag (probes s ! k))"

text \<open>The identifiers in the history, newest first, are the last values of the counter.\<close>

definition consecutive :: "App \<Rightarrow> bool" where
  "consecutive s =
     (length (results s) \<le> testCounterRef s \<and>
      map id_r (results s) =
        rev [testCounterRef s - length (results s) ..< testCounterRef s])"

text \<open>
  \<open>img_signal k e\<close>: the event is one of the three completion signals (load, error,
  timeout) of the image of invocation \<open>k\<close>. \<open>signal_of e\<close> is the invocation that a
  completion signal is delivered to. \<open>appended_by k s evs\<close> counts the signals of
  invocation \<open>k\<close> in the trace \<open>evs\<close> from state \<open>s\<close> at which \<open>addResult\<close> ran (the
  counter moved).
\<close>

fun img_signal :: "nat \<Rightarrow> event \<Rightarrow> bool" where
  "img_signal k (img_onload j ms now) = (j = k)"
| "img_signal k (img_onerror j ms now) = (j = k)"
| "img_signal k (img_timeout j now) = (j = k)"
| "img_signal k e = False"

fun signal_of :: "event \<Rightarrow> nat option" where
  "signal_of (fetch_fulfilled k ms now) = Some k"
| "signal_of (fetch_rejected k e now) = Some k"
| "signal_of (abort_timeout k now) = Some k"
| "signal_of (img_onload k ms now) = Some k"
| "signal_of (img_onerror k ms now) = Some k"
| "signal_of (img_timeout k now) = Some k"
| "signal_of e = None"

fun appended_by :: "nat \<Rightarrow> App \<Rightarrow> event list \<Rightarrow> nat" where
  "appended_by k s [] = 0"
| "appended_by k s (e # es) =
     (if signal_of e = Some k \<and> testCounterRef (step e s) \<noteq> testCounterRef s then 1 else 0)
     + appended_by k (step e s) es"

subsection \<open>Concrete traces\<close>

text \<open>
  A run of four successful probes with elapsed times 100, 150, 80 and 120 (oldest first);
  a run of the image technique with a success, a timeout and a late load; 45 successful
  outcomes; a stopped run followed by the host being cleared; a run in which the second
  and third probes are both in flight; a run stopped and started again while its probe is in
  flight; runs with one probe in flight.
\<close>

definition scenario :: "event list" where
  "scenario =
     [click, fetch_fulfilled 0 100 ''10:00:00'',
      tick 1, fetch_fulfilled 1 150 ''10:00:02'',
      tick 1, fetch_fulfilled 2 80 ''10:00:04'',
      tick 1, fetch_fulfilled 3 120 ''10:00:06'']"

definition mixed_trace :: "event list" where
  "mixed_trace =
     [setRequestType HTTP, click, img_onerror 0 35 ''10:00:00'',
      tick 1, img_timeout 1 ''10:00:04'', img_onload 1 2100 ''10:00:04'']"

definition outcomes45 :: "(Result \<times> string) list" where
  "outcomes45 =
     map (\<lambda>i. (\<lparr>type = HTTPS, time = Some (20 + int i), status = ''OK'', error = None\<rparr>, ''12:00:00''))
       [0 ..< 45]"

definition empty_host_trace :: "event list" where
  "empty_host_trace = [click, fetch_fulfilled 0 41 ''09:00:00'', click, setHost []]"

definition overlap :: "event list" where
  "overlap = [click, fetch_fulfilled 0 25 ''08:00:00'', tick 1, tick 1]"

definition restart :: "event list" where
  "restart =
     [click, click, click, fetch_fulfilled 1 30 ''08:00:01'', fetch_fulfilled 0 1900 ''08:00:02'']"

definition image_pending :: "event list" where
  "image_pending = [setRequestType HTTP, click]"

definition fetch_pending :: "event list" where
  "fetch_pending = [click]"

section \<open>The statistics lie between the extremes\<close>

lemma foldl_add_sum_list: "foldl (\<lambda>acc t. acc + t) a ts = a + sum_list (ts :: int list)"
  by (induction ts arbitrary: a) simp_all

lemma Math_min_eq_Min: "ts \<noteq> [] \<Longrightarrow> Math_min ts = Min (set ts)"
  by (cases ts) (simp_all add: Min.set_eq_fold[symmetric])

lemma Math_max_eq_Max: "ts \<noteq> [] \<Longrightarrow> Math_max ts = Max (set ts)"
  by (cases ts) (simp_all add: Max.set_eq_fold[symmetric])

lemma times_nonempty: "1 < length xs \<Longrightarrow> map f (butlast xs) \<noteq> []"
  by (cases xs) auto

lemma sum_list_lower: "(\<And>t. t \<in> set ts \<Longrightarrow> lo \<le> t) \<Longrightarrow> lo * int (length ts) \<le> sum_list ts"
  by (induction ts) (simp_all add: algebra_simps add_mono)

lemma sum_list_upper: "(\<And>t. t \<in> set ts \<Longrightarrow> t \<le> hi) \<Longrightarrow> sum_list ts \<le> hi * int (length ts)"
  by (induction ts) (simp_all add: algebra_simps add_mono)

lemma Math_round_lower:
  assumes n: "0 < n" and lo: "lo * int n \<le> tot"
  shows "lo \<le> Math_round (real_of_int tot / real n)"
proof -
  have rn: "0 < real n" using n by simp
  have "real_of_int (lo * int n) \<le> real_of_int tot" using lo by (simp only: of_int_le_iff)
  then have "real_of_int lo * real n \<le> real_of_int tot" by simp
  then have "real_of_int lo \<le> real_of_int tot / real n" using rn by (simp add: pos_le_divide_eq)
  then have "real_of_int lo \<le> real_of_int tot / real n + 1 / 2" by simp
  then show ?thesis
    unfolding Math_round_def by (simp only: le_floor_iff)
qed

lemma Math_round_upper:
  assumes n: "0 < n" and hi: "tot \<le> hi * int n"
  shows "Math_round (real_of_int tot / real n) \<le> hi"
proof -
  have rn: "0 < real n" using n by simp
  have "real_of_int tot \<le> real_of_int (hi * int n)" using hi by (simp only: of_int_le_iff)
  then have "real_of_int tot \<le> real_of_int hi * real n" by simp
  then have "real_of_int tot / real n \<le> real_of_int hi" using rn by (simp add: pos_divide_le_eq)
  then have "real_of_int tot / real n + 1 / 2 < real_of_int (hi + 1)" by simp
  then have "\<lfloor>real_of_int tot / real n + 1 / 2\<rfloor> < hi + 1"
    by (simp only: floor_less_iff)
  then show ?thesis
    unfolding Math_round_def by simp
qed

lemma mean_between:
  assumes "ts \<noteq> []"
  shows "Math_min ts \<le> Math_round (real_of_int (foldl (\<lambda>acc t. acc + t) 0 ts) / real (length ts))"
    and "Math_round (real_of_int (foldl (\<lambda>acc t. acc + t) 0 ts) / real (length ts)) \<le> Math_max ts"
proof -
  have n: "0 < length ts" using assms by simp
  have lo: "Min (set ts) * int (length ts) \<le> sum_list ts"
    by (rule sum_list_lower) simp
  have hi: "sum_list ts \<le> Max (set ts) * int (length ts)"
    by (rule sum_list_upper) simp
  show "Math_min ts \<le> Math_round (real_of_int (foldl (\<lambda>acc t. acc + t) 0 ts) / real (length ts))"
    using Math_round_lower[OF n lo] assms
    by (simp add: foldl_add_sum_list Math_min_eq_Min)
  show "Math_round (real_of_int (foldl (\<lambda>acc t. acc + t) 0 ts) / real (length ts)) \<le> Math_max ts"
    using Math_round_upper[OF n hi] assms
    by (simp add: foldl_add_sum_list Math_max_eq_Max)
qed

text \<open>
  Claim C10: whenever the statistics effect yields values (at least two successful
  outcomes), the minimum is at most the average and the average at most the maximum.
\<close>

theorem statistics_ordered:
  assumes "averageLatency (useEffect_statistics s) = Some a"
    and "minLatency (useEffect_statistics s) = Some mn"
    and "maxLatency (useEffect_statistics s) = Some mx"
  shows "mn \<le> a \<and> a \<le> mx"
proof (cases "1 < length (successfulTests (results s))")
  case True
  let ?ts = "map (\<lambda>r. the (time r)) (butlast (successfulTests (results s)))"
  have ne: "?ts \<noteq> []" using True by (rule times_nonempty)
  have "a = Math_round (real_of_int (foldl (\<lambda>acc t. acc + t) 0 ?ts) / real (length ?ts))"
    and "mn = Math_min ?ts" and "mx = Math_max ?ts"
    using assms True by (simp_all add: useEffect_statistics_def Let_def)
  then show ?thesis using mean_between[OF ne] by simp
next
  case False
  then show ?thesis using assms by (simp add: useEffect_statistics_def)
qed

theorem statistics_ordered_witness:
  "averageLatency (useEffect_statistics (exec App_init scenario)) = Some 117 \<and>
   minLatency (useEffect_statistics (exec App_init scenario)) = Some 80 \<and>
   maxLatency (useEffect_statistics (exec App_init scenario)) = Some 150 \<and>
   (80 :: int) \<le> 117 \<and> (117 :: int) \<le> 150"
proof -
  have a: "averageLatency (useEffect_statistics (exec App_init scenario)) = Some 117"
    by code_simp
  have b: "minLatency (useEffect_statistics (exec App_init scenario)) = Some 80"
    by code_simp
  have c: "maxLatency (useEffect_statistics (exec App_init scenario)) = Some 150"
    by code_simp
  from statistics_ordered[OF a b c] show ?thesis using a b c by simp
qed

section \<open>The shape of the recorded outcomes\<close>

lemma timeout_message_eq: "timeout_message = ''Timeout (2000ms)''"
  by code_simp

lemma errorMsg_nonempty: "errorMsg e \<noteq> []"
  by (cases e) (simp_all add: errorMsg_def timeout_message_eq)

lemma results_useEffect [simp]: "results (useEffect_statistics s) = results s"
  by (simp add: useEffect_statistics_def Let_def)

lemma results_mark_done [simp]: "results (mark_done k s) = results s"
  by (simp add: mark_done_def)

lemma testCounterRef_mark_done [simp]: "testCounterRef (mark_done k s) = testCounterRef s"
  by (simp add: mark_done_def)

lemma results_addResult:
  "results (addResult r now s) =
     take 40 (\<lparr>type = type r, time = time r, status = status r, error = error r,
               id_r = testCounterRef s, timestamp = now\<rparr> # results s)"
  by (simp add: addResult_def)

lemma results_runTest [simp]: "results (runTest h rt s) = results s"
  by (simp add: runTest_def)

lemma results_handleStartStop:
  "results (handleStartStop s) = (if isRunning s \<or> host s = [] then results s else [])"
  by (simp add: handleStartStop_def clearInterval_def setInterval_def Let_def split: option.splits)

lemma list_all_take: "list_all P xs \<Longrightarrow> list_all P (take n xs)"
  by (auto simp: list_all_iff dest: in_set_takeD)

lemma shaped_addResult:
  "outcome_shape \<lparr>type = type r, time = time r, status = status r, error = error r,
               id_r = testCounterRef s, timestamp = now\<rparr> \<Longrightarrow> list_all outcome_shape (results s) \<Longrightarrow>
   list_all outcome_shape (results (addResult r now s))"
  by (simp add: results_addResult list_all_take)

lemma shaped_handler: "shaped s \<Longrightarrow> shaped (handler e s)"
  by (cases e)
    (auto simp: shaped_def results_handleStartStop fetch_then_def fetch_catch_def handleSuccess_def
      timeout_callback_def recordResult_def outcome_shape_def errorMsg_nonempty timeout_message_eq truthy_def
      intro!: shaped_addResult split: option.splits)

lemma shaped_step: "shaped s \<Longrightarrow> shaped (step e s)"
  by (simp add: step_def shaped_def shaped_handler[unfolded shaped_def])

lemma shaped_exec: "shaped s \<Longrightarrow> shaped (exec s es)"
  by (induction es arbitrary: s) (simp_all add: shaped_step)

lemma shaped_init: "shaped App_init"
  by (simp add: shaped_def App_init_def)

lemma outcome_shape_invariant: "outcome_shape r \<Longrightarrow> ProbeOutcome_invariant r"
  by (auto simp: outcome_shape_def ProbeOutcome_invariant_def truthy_def split: option.splits)

section \<open>The statistics effect refines the reference definition\<close>

lemma successfulTests_shaped:
  "list_all outcome_shape rs \<Longrightarrow>
   successfulTests rs = filter (\<lambda>r. status r = ''OK'' \<and> time r \<noteq> None) rs"
  unfolding successfulTests_def
  by (rule filter_cong)
    (auto simp: list_all_iff outcome_shape_def truthy_def split: option.splits)

lemma Math_round_eq_round: "Math_round x = round x"
  by (simp add: Math_round_def round_def)

lemma effect_eq_compute:
  assumes "list_all outcome_shape (results s)"
  shows "(averageLatency (useEffect_statistics s), minLatency (useEffect_statistics s),
          maxLatency (useEffect_statistics s)) = compute (results s)"
proof -
  let ?ok = "filter (\<lambda>r. status r = ''OK'' \<and> time r \<noteq> None) (results s)"
  have eq: "successfulTests (results s) = ?ok"
    using assms by (rule successfulTests_shaped)
  show ?thesis
  proof (cases "1 < length ?ok")
    case True
    then have ne: "map (\<lambda>r. the (time r)) (butlast ?ok) \<noteq> []"
      by (rule times_nonempty)
    have avg: "averageLatency (useEffect_statistics s) =
        Some (round (real_of_int (sum_list (map (\<lambda>r. the (time r)) (butlast ?ok))) /
                real (length (map (\<lambda>r. the (time r)) (butlast ?ok)))))"
      using True
      by (simp add: useEffect_statistics_def Let_def eq Math_round_eq_round foldl_add_sum_list
          del: map_butlast)
    have mn: "minLatency (useEffect_statistics s) =
        Some (Min (set (map (\<lambda>r. the (time r)) (butlast ?ok))))"
      using True Math_min_eq_Min[OF ne]
      by (simp add: useEffect_statistics_def Let_def eq del: map_butlast)
    have mx: "maxLatency (useEffect_statistics s) =
        Some (Max (set (map (\<lambda>r. the (time r)) (butlast ?ok))))"
      using True Math_max_eq_Max[OF ne]
      by (simp add: useEffect_statistics_def Let_def eq del: map_butlast)
    have "compute (results s) =
        (Some (round (real_of_int (sum_list (map (\<lambda>r. the (time r)) (butlast ?ok))) /
                real (length (map (\<lambda>r. the (time r)) (butlast ?ok))))),
         Some (Min (set (map (\<lambda>r. the (time r)) (butlast ?ok)))),
         Some (Max (set (map (\<lambda>r. the (time r)) (butlast ?ok)))))"
      using True by (simp add: compute_def Let_def del: map_butlast)
    then show ?thesis by (simp only: avg mn mx)
  next
    case False
    then have "compute (results s) = (None, None, None)"
      by (simp add: compute_def Let_def)
    then show ?thesis using False
      by (simp add: useEffect_statistics_def eq)
  qed
qed

lemma exec_append: "exec s (es @ fs) = exec (exec s es) fs"
  by (induction es arbitrary: s) simp_all

lemma compute_Nil: "compute [] = (None, None, None)"
  by (simp add: compute_def)

lemma stats_exec:
  "(averageLatency (exec App_init evs), minLatency (exec App_init evs),
    maxLatency (exec App_init evs)) = compute (results (exec App_init evs))"
proof (cases evs rule: rev_cases)
  case Nil
  then show ?thesis by (simp add: App_init_def compute_Nil)
next
  case (snoc es e)
  have "shaped (handler e (exec App_init es))"
    by (intro shaped_handler shaped_exec shaped_init)
  then have "list_all outcome_shape (results (handler e (exec App_init es)))"
    by (simp add: shaped_def)
  from effect_eq_compute[OF this] show ?thesis
    by (simp add: snoc exec_append step_def)
qed

lemma scenario_times:
  "map time (results (exec App_init scenario)) = [Some 120, Some 80, Some 150, Some 100]"
  by code_simp

lemma scenario_status:
  "map status (results (exec App_init scenario)) = [''OK'', ''OK'', ''OK'', ''OK'']"
  by code_simp

lemma scenario_stats:
  "(averageLatency (exec App_init scenario), minLatency (exec App_init scenario),
    maxLatency (exec App_init scenario)) = (Some 117, Some 80, Some 150)"
  by code_simp

text \<open>
  Claim C1: after every sequence of events the three statistics of the component are those
  of the reference definition \<open>compute\<close> on the current history; and for the successful
  elapsed times 120, 80, 150, 100 (oldest last) they are 117, 80 and 150.
\<close>

theorem statistics_refine_compute:
  "(averageLatency (exec App_init evs), minLatency (exec App_init evs),
    maxLatency (exec App_init evs)) = compute (results (exec App_init evs)) \<and>
   map time (results (exec App_init scenario)) = [Some 120, Some 80, Some 150, Some 100] \<and>
   map status (results (exec App_init scenario)) = [''OK'', ''OK'', ''OK'', ''OK''] \<and>
   (averageLatency (exec App_init scenario), minLatency (exec App_init scenario),
    maxLatency (exec App_init scenario)) = (Some 117, Some 80, Some 150)"
  using stats_exec scenario_times scenario_status scenario_stats by simp

theorem statistics_refine_compute_witness:
  "compute (results (exec App_init scenario)) = (Some 117, Some 80, Some 150)"
proof -
  from statistics_refine_compute[of scenario]
  have a: "(averageLatency (exec App_init scenario), minLatency (exec App_init scenario),
      maxLatency (exec App_init scenario)) = compute (results (exec App_init scenario))"
    and b: "(averageLatency (exec App_init scenario), minLatency (exec App_init scenario),
      maxLatency (exec App_init scenario)) = (Some 117, Some 80, Some 150)"
    by blast+
  show ?thesis by (rule trans[OF a[symmetric] b])
qed

section \<open>The invariant of an outcome\<close>

lemma invariant_step:
  assumes "list_all ProbeOutcome_invariant (results s)"
  shows "list_all ProbeOutcome_invariant (results (step e s))"
  using assms
  by (cases e)
    (auto simp: step_def results_handleStartStop fetch_then_def fetch_catch_def handleSuccess_def
      timeout_callback_def recordResult_def ProbeOutcome_invariant_def results_addResult
      intro!: list_all_take split: option.splits)

text \<open>
  Claim C8: every outcome in the history, after any sequence of events, satisfies the
  invariant of \<open>ProbeOutcome\<close>, and every event (so every append, on either technique)
  preserves it.
\<close>

theorem outcome_invariant:
  "(\<forall>r \<in> set (results (exec App_init evs)). ProbeOutcome_invariant r) \<and>
   ((\<forall>r \<in> set (results s). ProbeOutcome_invariant r) \<longrightarrow>
    (\<forall>r \<in> set (results (step e s)). ProbeOutcome_invariant r))"
proof
  have "shaped (exec App_init evs)" by (intro shaped_exec shaped_init)
  then show "\<forall>r \<in> set (results (exec App_init evs)). ProbeOutcome_invariant r"
    by (auto simp: shaped_def list_all_iff intro: outcome_shape_invariant)
  show "(\<forall>r \<in> set (results s). ProbeOutcome_invariant r) \<longrightarrow>
    (\<forall>r \<in> set (results (step e s)). ProbeOutcome_invariant r)"
    using invariant_step[of s e] by (simp add: list_all_iff)
qed

lemma mixed_results:
  "results (exec App_init mixed_trace) =
     [\<lparr>type = HTTP, time = None, status = ''Error'', error = Some ''Timeout (2000ms)'',
       id_r = 1, timestamp = ''10:00:04''\<rparr>,
      \<lparr>type = HTTP, time = Some 35, status = ''OK'', error = None,
       id_r = 0, timestamp = ''10:00:00''\<rparr>]"
  by code_simp

theorem outcome_invariant_witness:
  "ProbeOutcome_invariant
     \<lparr>type = HTTP, time = None, status = ''Error'', error = Some ''Timeout (2000ms)'',
      id_r = 1, timestamp = ''10:00:04''\<rparr> \<and>
   ProbeOutcome_invariant
     \<lparr>type = HTTP, time = Some 35, status = ''OK'', error = None,
      id_r = 0, timestamp = ''10:00:00''\<rparr>"
  using outcome_invariant[of mixed_trace] by (simp add: mixed_results)

section \<open>The bounded history\<close>

lemma results_addResult_stamp:
  "results (addResult r now s) = take 40 (stamp (testCounterRef s) (r, now) # results s)"
  by (simp add: addResult_def stamp_def)

lemma testCounterRef_addResult [simp]:
  "testCounterRef (addResult r now s) = Suc (testCounterRef s)"
  by (simp add: addResult_def)

lemma take_append_take: "take n (ys @ take n xs) = take n (ys @ xs)"
  by (simp add: min_def)

lemma results_appends:
  "outs \<noteq> [] \<Longrightarrow> results (appends outs s) = take 40 (rev (stamped (testCounterRef s) outs) @ results s)"
proof (induction outs arbitrary: s)
  case Nil
  then show ?case by simp
next
  case (Cons x xs)
  let ?s' = "addResult (fst x) (snd x) s"
  have r': "results ?s' = take 40 (stamp (testCounterRef s) x # results s)"
    by (simp add: results_addResult_stamp)
  show ?case
  proof (cases "xs = []")
    case True
    then show ?thesis by (simp add: r')
  next
    case False
    have "results (appends (x # xs) s) = results (appends xs ?s')" by simp
    also have "\<dots> = take 40 (rev (stamped (Suc (testCounterRef s)) xs) @ results ?s')"
      using Cons.IH[OF False, of ?s'] by simp
    also have "\<dots> = take 40 (rev (stamped (Suc (testCounterRef s)) xs) @ (stamp (testCounterRef s) x # results s))"
      by (simp only: r' take_append_take)
    also have "\<dots> = take 40 (rev (stamped (testCounterRef s) (x # xs)) @ results s)"
      by simp
    finally show ?thesis .
  qed
qed

lemma length_stamped [simp]: "length (stamped n xs) = length xs"
  by (induction xs arbitrary: n) simp_all

lemma length_results_appends:
  "length (results s) \<le> 40 \<Longrightarrow> length (results (appends outs s)) \<le> 40"
  by (cases "outs = []") (simp_all add: results_appends)

lemma length_results_addResult: "length (results (addResult r now s)) \<le> 40"
  by (simp add: results_addResult_stamp)

lemma length_results_handler: "length (results s) \<le> 40 \<Longrightarrow> length (results (handler e s)) \<le> 40"
  by (cases e)
    (auto simp: results_handleStartStop fetch_then_def fetch_catch_def handleSuccess_def
      timeout_callback_def recordResult_def length_results_addResult split: option.splits)

lemma length_results_exec:
  "length (results s) \<le> 40 \<Longrightarrow> length (results (exec s evs)) \<le> 40"
  by (induction evs arbitrary: s) (simp_all add: step_def length_results_handler)

lemma evict_oldest:
  assumes "length (results s) = 40"
  shows "results (addResult r now s) = stamp (testCounterRef s) (r, now) # butlast (results s)"
  using assms by (simp add: results_addResult_stamp butlast_conv_take)

lemma appends_45:
  assumes "results s = []" and "length outs = 45"
  shows "results (appends outs s) = rev (drop 5 (stamped (testCounterRef s) outs))"
proof -
  have "outs \<noteq> []" using assms(2) by auto
  then have "results (appends outs s) = take 40 (rev (stamped (testCounterRef s) outs))"
    using assms(1) by (simp add: results_appends)
  also have "\<dots> = rev (drop 5 (stamped (testCounterRef s) outs))"
    using assms(2) by (simp add: take_rev)
  finally show ?thesis .
qed

text \<open>
  Claim C2: the history never holds more than 40 entries, after any sequence of events and
  after any sequence of appends; an append to a history of 40 entries puts the new entry
  first and drops exactly the last (oldest) one; and 45 appends to the empty history leave
  exactly the 40 most recent outcomes, newest first.
\<close>

theorem history_bounded:
  "length (results (exec App_init evs)) \<le> 40 \<and>
   (length (results s) \<le> 40 \<longrightarrow> length (results (appends outs s)) \<le> 40) \<and>
   (length (results s) = 40 \<longrightarrow>
      results (addResult r now s) = stamp (testCounterRef s) (r, now) # butlast (results s)) \<and>
   (results s = [] \<and> length outs = 45 \<longrightarrow>
      length (results (appends outs s)) = 40 \<and>
      results (appends outs s) = rev (drop 5 (stamped (testCounterRef s) outs)))"
proof (intro conjI impI)
  show "length (results (exec App_init evs)) \<le> 40"
    by (rule length_results_exec) (simp add: App_init_def)
next
  assume "length (results s) \<le> 40"
  then show "length (results (appends outs s)) \<le> 40" by (rule length_results_appends)
next
  assume "length (results s) = 40"
  then show "results (addResult r now s) = stamp (testCounterRef s) (r, now) # butlast (results s)"
    by (rule evict_oldest)
next
  assume a: "results s = [] \<and> length outs = 45"
  then show "results (appends outs s) = rev (drop 5 (stamped (testCounterRef s) outs))"
    by (simp add: appends_45)
  then show "length (results (appends outs s)) = 40" using a by simp
qed

lemma outcomes45_length: "length outcomes45 = 45"
  by (simp add: outcomes45_def)

lemma outcomes45_ids: "map id_r (rev (drop 5 (stamped 0 outcomes45))) = rev [5 ..< 45]"
  by code_simp

lemma outcomes45_times:
  "map time (rev (drop 5 (stamped 0 outcomes45))) = map (\<lambda>i. Some (20 + int i)) (rev [5 ..< 45])"
  by code_simp

lemma full_history:
  "length (results (appends (take 40 outcomes45) App_init)) = 40" 
  by code_simp

theorem history_bounded_witness:
  "length (results (appends outcomes45 App_init)) = 40 \<and>
   map id_r (results (appends outcomes45 App_init)) = rev [5 ..< 45] \<and>
   map time (results (appends outcomes45 App_init)) = map (\<lambda>i. Some (20 + int i)) (rev [5 ..< 45]) \<and>
   length (results (appends (take 40 outcomes45) App_init)) = 40 \<and>
   results (addResult \<lparr>type = HTTP, time = Some 7, status = ''OK'', error = None\<rparr> ''12:01:00''
      (appends (take 40 outcomes45) App_init)) =
     stamp 40 (\<lparr>type = HTTP, time = Some 7, status = ''OK'', error = None\<rparr>, ''12:01:00'')
       # butlast (results (appends (take 40 outcomes45) App_init))"
proof -
  have e: "results App_init = [] \<and> length outcomes45 = 45"
    by (simp add: App_init_def outcomes45_length)
  have c: "testCounterRef App_init = 0" by (simp add: App_init_def)
  have c40: "testCounterRef (appends (take 40 outcomes45) App_init) = 40" by code_simp
  from history_bounded[of "[]" "appends (take 40 outcomes45) App_init" "[]"
      "\<lparr>type = HTTP, time = Some 7, status = ''OK'', error = None\<rparr>" "''12:01:00''"] full_history c40
  have 1: "results (addResult \<lparr>type = HTTP, time = Some 7, status = ''OK'', error = None\<rparr> ''12:01:00''
      (appends (take 40 outcomes45) App_init)) =
     stamp 40 (\<lparr>type = HTTP, time = Some 7, status = ''OK'', error = None\<rparr>, ''12:01:00'')
       # butlast (results (appends (take 40 outcomes45) App_init))"
    by simp
  from history_bounded[of "[]" App_init outcomes45] e c
  have 2: "length (results (appends outcomes45 App_init)) = 40"
    and 3: "results (appends outcomes45 App_init) = rev (drop 5 (stamped 0 outcomes45))"
    by simp_all
  show ?thesis using 1 2 full_history by (simp add: 3 outcomes45_ids outcomes45_times)
qed

section \<open>Timers, and the start that is refused\<close>

lemma useEffect_fields [simp]:
  "host (useEffect_statistics s) = host s"
  "requestType (useEffect_statistics s) = requestType s"
  "isRunning (useEffect_statistics s) = isRunning s"
  "statusMessage (useEffect_statistics s) = statusMessage s"
  "intervalRef (useEffect_statistics s) = intervalRef s"
  "testCounterRef (useEffect_statistics s) = testCounterRef s"
  "timers (useEffect_statistics s) = timers s"
  "nextTimer (useEffect_statistics s) = nextTimer s"
  "probes (useEffect_statistics s) = probes s"
  by (simp_all add: useEffect_statistics_def Let_def)

lemma addResult_fields [simp]:
  "host (addResult r now s) = host s"
  "requestType (addResult r now s) = requestType s"
  "isRunning (addResult r now s) = isRunning s"
  "statusMessage (addResult r now s) = statusMessage s"
  "intervalRef (addResult r now s) = intervalRef s"
  "timers (addResult r now s) = timers s"
  "nextTimer (addResult r now s) = nextTimer s"
  "probes (addResult r now s) = probes s"
  by (simp_all add: addResult_def)

lemma mark_done_fields [simp]:
  "host (mark_done k s) = host s"
  "requestType (mark_done k s) = requestType s"
  "isRunning (mark_done k s) = isRunning s"
  "statusMessage (mark_done k s) = statusMessage s"
  "intervalRef (mark_done k s) = intervalRef s"
  "timers (mark_done k s) = timers s"
  "nextTimer (mark_done k s) = nextTimer s"
  "probes (mark_done k s) = (probes s)[k := (probes s ! k)\<lparr>done_flag := True\<rparr>]"
  by (simp_all add: mark_done_def)

lemma runTest_fields [simp]:
  "host (runTest h rt s) = host s"
  "requestType (runTest h rt s) = requestType s"
  "isRunning (runTest h rt s) = isRunning s"
  "intervalRef (runTest h rt s) = intervalRef s"
  "testCounterRef (runTest h rt s) = testCounterRef s"
  "timers (runTest h rt s) = timers s"
  "nextTimer (runTest h rt s) = nextTimer s"
  by (simp_all add: runTest_def)

lemma recordResult_fields [simp]:
  "host (recordResult k t st err now s) = host s"
  "requestType (recordResult k t st err now s) = requestType s"
  "isRunning (recordResult k t st err now s) = isRunning s"
  "statusMessage (recordResult k t st err now s) = statusMessage s"
  "intervalRef (recordResult k t st err now s) = intervalRef s"
  "timers (recordResult k t st err now s) = timers s"
  "nextTimer (recordResult k t st err now s) = nextTimer s"
  by (simp_all add: recordResult_def)

lemma armed_handleStartStop: "armed s \<Longrightarrow> armed (handleStartStop s)"
  by (auto simp: armed_def handleStartStop_def clearInterval_def setInterval_def Let_def
      split: option.splits if_splits)

lemma armed_handler: "armed s \<Longrightarrow> armed (handler e s)"
proof (cases e)
  case click
  assume "armed s"
  then show ?thesis using click by (simp add: armed_handleStartStop)
next
  case (tick h)
  assume "armed s"
  then show ?thesis using tick by (auto simp: armed_def split: option.splits)
qed (auto simp: armed_def fetch_then_def fetch_catch_def handleSuccess_def timeout_callback_def
      split: option.splits)

lemma armed_useEffect: "armed (useEffect_statistics s) = armed s"
  by (simp add: armed_def split: option.splits)

lemma armed_step: "armed s \<Longrightarrow> armed (step e s)"
  by (simp add: step_def armed_useEffect armed_handler)

lemma armed_exec: "armed s \<Longrightarrow> armed (exec s evs)"
  by (induction evs arbitrary: s) (simp_all add: armed_step)

lemma armed_init: "armed App_init"
  by (simp add: armed_def App_init_def)

lemma idle_no_timer: "\<not> isRunning (exec App_init evs) \<Longrightarrow> timers (exec App_init evs) = []"
  using armed_exec[OF armed_init, of evs] by (simp add: armed_def)

lemma handleStartStop_empty_host:
  "\<not> isRunning s \<Longrightarrow> host s = [] \<Longrightarrow>
   handleStartStop s = s\<lparr>statusMessage := ''Error: Host cannot be empty.''\<rparr>"
  by (simp add: handleStartStop_def)

text \<open>
  Claim C4: a start with the empty host only sets the status message to the validation
  error: the component stays idle, the history, the counter, the timers, \<open>intervalRef\<close> and
  the closures are unchanged, and (after any sequence of events) no timer is armed.
\<close>

theorem start_empty_host:
  "(\<not> isRunning s \<and> host s = [] \<longrightarrow>
      handleStartStop s = s\<lparr>statusMessage := ''Error: Host cannot be empty.''\<rparr> \<and>
      statusMessage (step click s) = ''Error: Host cannot be empty.'' \<and>
      \<not> isRunning (step click s) \<and>
      results (step click s) = results s \<and>
      testCounterRef (step click s) = testCounterRef s \<and>
      timers (step click s) = timers s \<and>
      intervalRef (step click s) = intervalRef s \<and>
      probes (step click s) = probes s) \<and>
   (\<not> isRunning (exec App_init evs) \<and> host (exec App_init evs) = [] \<longrightarrow>
      timers (step click (exec App_init evs)) = [])"
proof (intro conjI impI)
  assume a: "\<not> isRunning (exec App_init evs) \<and> host (exec App_init evs) = []"
  then have "timers (exec App_init evs) = []" by (simp add: idle_no_timer)
  then show "timers (step click (exec App_init evs)) = []"
    using a by (simp add: step_def handleStartStop_empty_host)
qed (simp_all add: step_def handleStartStop_empty_host)

theorem start_empty_host_witness:
  "\<not> isRunning (exec App_init empty_host_trace) \<and>
   host (exec App_init empty_host_trace) = [] \<and>
   statusMessage (step click (exec App_init empty_host_trace)) = ''Error: Host cannot be empty.'' \<and>
   \<not> isRunning (step click (exec App_init empty_host_trace)) \<and>
   map id_r (results (step click (exec App_init empty_host_trace))) = [0] \<and>
   testCounterRef (step click (exec App_init empty_host_trace)) = 1 \<and>
   timers (step click (exec App_init empty_host_trace)) = []"
proof -
  have a: "\<not> isRunning (exec App_init empty_host_trace)" by code_simp
  have b: "host (exec App_init empty_host_trace) = []" by code_simp
  have c: "map id_r (results (exec App_init empty_host_trace)) = [0]" by code_simp
  have d: "testCounterRef (exec App_init empty_host_trace) = 1" by code_simp
  have e: "timers (exec App_init empty_host_trace) = []" by code_simp
  from start_empty_host[of "exec App_init empty_host_trace" empty_host_trace] show ?thesis
    using a b c d e by simp
qed

section \<open>Timeouts and image callbacks\<close>

lemma results_step [simp]: "results (step e s) = results (handler e s)"
  by (simp add: step_def)

lemma step_fields [simp]:
  "isRunning (step e s) = isRunning (handler e s)"
  "timers (step e s) = timers (handler e s)"
  "intervalRef (step e s) = intervalRef (handler e s)"
  "testCounterRef (step e s) = testCounterRef (handler e s)"
  "probes (step e s) = probes (handler e s)"
  "host (step e s) = host (handler e s)"
  "statusMessage (step e s) = statusMessage (handler e s)"
  by (simp_all add: step_def)

lemma abort_timeout_pending:
  assumes "pending HTTPS k s"
  shows "results (handler (abort_timeout k now) s) =
           take 40 (\<lparr>type = HTTPS, time = None, status = ''Error'',
                     error = Some ''Timeout (2000ms)'', id_r = testCounterRef s, timestamp = now\<rparr>
                    # results s)"
    and "isRunning (handler (abort_timeout k now) s) = isRunning s"
    and "timers (handler (abort_timeout k now) s) = timers s"
    and "intervalRef (handler (abort_timeout k now) s) = intervalRef s"
  using assms
  by (simp_all add: fetch_catch_def results_addResult errorMsg_def timeout_message_eq
      pending_def issued_def)

lemma img_timeout_pending:
  assumes "pending HTTP k s"
  shows "results (handler (img_timeout k now) s) =
           take 40 (\<lparr>type = HTTP, time = None, status = ''Error'',
                     error = Some ''Timeout (2000ms)'', id_r = testCounterRef s, timestamp = now\<rparr>
                    # results s)"
    and "isRunning (handler (img_timeout k now) s) = isRunning s"
    and "timers (handler (img_timeout k now) s) = timers s"
    and "intervalRef (handler (img_timeout k now) s) = intervalRef s"
  using assms
  by (simp_all add: timeout_callback_def recordResult_def results_addResult timeout_message_eq
      pending_def issued_def)

lemma timeout_value: "timeout = 2000"
  by (simp add: timeout_def)

text \<open>
  Claim C6: the timeout is the constant 2000; on either technique the timeout of a probe
  that has not completed appends the outcome with status Error, the message
  "Timeout (2000ms)" and no elapsed time, and leaves the run state and the interval timer
  as they are.
\<close>

theorem timeout_outcome:
  "timeout = 2000 \<and>
   (pending HTTPS k s \<longrightarrow>
      results (step (abort_timeout k now) s) =
        take 40 (\<lparr>type = HTTPS, time = None, status = ''Error'',
                  error = Some ''Timeout (2000ms)'', id_r = testCounterRef s, timestamp = now\<rparr>
                 # results s) \<and>
      isRunning (step (abort_timeout k now) s) = isRunning s \<and>
      timers (step (abort_timeout k now) s) = timers s \<and>
      intervalRef (step (abort_timeout k now) s) = intervalRef s) \<and>
   (pending HTTP k s \<longrightarrow>
      results (step (img_timeout k now) s) =
        take 40 (\<lparr>type = HTTP, time = None, status = ''Error'',
                  error = Some ''Timeout (2000ms)'', id_r = testCounterRef s, timestamp = now\<rparr>
                 # results s) \<and>
      isRunning (step (img_timeout k now) s) = isRunning s \<and>
      timers (step (img_timeout k now) s) = timers s \<and>
      intervalRef (step (img_timeout k now) s) = intervalRef s)"
  using timeout_value abort_timeout_pending[of k s now] img_timeout_pending[of k s now]
  by simp

theorem timeout_outcome_witness:
  "pending HTTPS 0 (exec App_init fetch_pending) \<and>
   pending HTTP 0 (exec App_init image_pending) \<and>
   results (step (abort_timeout 0 ''08:00:02'') (exec App_init fetch_pending)) =
     [\<lparr>type = HTTPS, time = None, status = ''Error'', error = Some ''Timeout (2000ms)'',
       id_r = 0, timestamp = ''08:00:02''\<rparr>] \<and>
   results (step (img_timeout 0 ''08:00:02'') (exec App_init image_pending)) =
     [\<lparr>type = HTTP, time = None, status = ''Error'', error = Some ''Timeout (2000ms)'',
       id_r = 0, timestamp = ''08:00:02''\<rparr>] \<and>
   isRunning (step (abort_timeout 0 ''08:00:02'') (exec App_init fetch_pending)) \<and>
   isRunning (step (img_timeout 0 ''08:00:02'') (exec App_init image_pending))"
proof -
  have a: "pending HTTPS 0 (exec App_init fetch_pending)" by code_simp
  have b: "pending HTTP 0 (exec App_init image_pending)" by code_simp
  have c: "results (exec App_init fetch_pending) = []" "testCounterRef (exec App_init fetch_pending) = 0"
    "isRunning (exec App_init fetch_pending)"
    by code_simp+
  have d: "results (exec App_init image_pending) = []" "testCounterRef (exec App_init image_pending) = 0"
    "isRunning (exec App_init image_pending)"
    by code_simp+
  from timeout_outcome[of 0 "exec App_init fetch_pending" "''08:00:02''"]
    timeout_outcome[of 0 "exec App_init image_pending" "''08:00:02''"]
  show ?thesis using a b c d by simp
qed

lemma img_success_pending:
  assumes "pending HTTP k s"
  shows "results (handler (img_onload k ms now) s) =
           take 40 (\<lparr>type = HTTP, time = Some ms, status = ''OK'', error = None,
                     id_r = testCounterRef s, timestamp = now\<rparr> # results s)"
    and "results (handler (img_onerror k ms now) s) =
           take 40 (\<lparr>type = HTTP, time = Some ms, status = ''OK'', error = None,
                     id_r = testCounterRef s, timestamp = now\<rparr> # results s)"
  using assms
  by (simp_all add: handleSuccess_def recordResult_def results_addResult pending_def issued_def)

lemma img_signal_cases:
  assumes "img_signal k e"
  obtains (load) ms now where "e = img_onload k ms now"
    | (err) ms now where "e = img_onerror k ms now"
    | (tmo) now where "e = img_timeout k now"
  using assms by (cases e) auto

lemma img_failure_iff:
  assumes "pending HTTP k s" and "img_signal k e"
  shows "(status (hd (results (step e s))) = ''Error'') = (\<exists>now. e = img_timeout k now)"
  using assms(2)
proof (cases rule: img_signal_cases)
  case (load ms now)
  then show ?thesis using img_success_pending(1)[OF assms(1), of ms now] by simp
next
  case (err ms now)
  then show ?thesis using img_success_pending(2)[OF assms(1), of ms now] by simp
next
  case (tmo now)
  then show ?thesis using img_timeout_pending(1)[OF assms(1), of now] by simp
qed

text \<open>
  Claim C7: on the image technique the load callback and the error callback are the same
  handler, and each records, for a probe that has not completed, an outcome with status OK
  and the measured time; of the three signals only the timeout records a failure.
\<close>

theorem image_callbacks_succeed:
  "step (img_onerror k ms now) s = step (img_onload k ms now) s \<and>
   (pending HTTP k s \<longrightarrow>
      results (step (img_onload k ms now) s) =
        take 40 (\<lparr>type = HTTP, time = Some ms, status = ''OK'', error = None,
                  id_r = testCounterRef s, timestamp = now\<rparr> # results s) \<and>
      results (step (img_onerror k ms now) s) =
        take 40 (\<lparr>type = HTTP, time = Some ms, status = ''OK'', error = None,
                  id_r = testCounterRef s, timestamp = now\<rparr> # results s)) \<and>
   (pending HTTP k s \<and> img_signal k e \<longrightarrow>
      (status (hd (results (step e s))) = ''Error'') = (\<exists>t. e = img_timeout k t))"
  using img_success_pending[of k s ms now] img_failure_iff[of k s e]
  by (simp add: step_def)

theorem image_callbacks_succeed_witness:
  "pending HTTP 0 (exec App_init image_pending) \<and>
   results (step (img_onload 0 35 ''08:00:01'') (exec App_init image_pending)) =
     [\<lparr>type = HTTP, time = Some 35, status = ''OK'', error = None,
       id_r = 0, timestamp = ''08:00:01''\<rparr>] \<and>
   results (step (img_onerror 0 35 ''08:00:01'') (exec App_init image_pending)) =
     [\<lparr>type = HTTP, time = Some 35, status = ''OK'', error = None,
       id_r = 0, timestamp = ''08:00:01''\<rparr>] \<and>
   status (hd (results (step (img_onerror 0 35 ''08:00:01'') (exec App_init image_pending)))) \<noteq> ''Error'' \<and>
   status (hd (results (step (img_timeout 0 ''08:00:02'') (exec App_init image_pending)))) = ''Error''"
proof -
  have b: "pending HTTP 0 (exec App_init image_pending)" by code_simp
  have d: "results (exec App_init image_pending) = []" "testCounterRef (exec App_init image_pending) = 0"
    by code_simp+
  have e: "img_signal 0 (img_onerror 0 35 ''08:00:01'')" "img_signal 0 (img_timeout 0 ''08:00:02'')"
    by simp_all
  from image_callbacks_succeed[of 0 35 "''08:00:01''" "exec App_init image_pending" "img_onerror 0 35 ''08:00:01''"]
    image_callbacks_succeed[of 0 35 "''08:00:01''" "exec App_init image_pending" "img_timeout 0 ''08:00:02''"]
  show ?thesis using b d e by simp
qed

section \<open>One outcome for each invocation\<close>

lemma probes_handleStartStop:
  "probes (handleStartStop s) =
     (if isRunning s \<or> host s = [] then probes s
      else probes s @ [\<lparr>currentHost = host s, probeType = requestType s, done_flag = False\<rparr>])"
  by (simp add: handleStartStop_def clearInterval_def setInterval_def runTest_def Let_def
      split: option.splits)

lemma probes_runTest:
  "probes (runTest h rt s) =
     (if h = [] then probes s
      else probes s @ [\<lparr>currentHost = h, probeType = rt, done_flag = False\<rparr>])"
  by (simp add: runTest_def)

lemma finished_same: "finished k s \<Longrightarrow> probes s' = probes s \<Longrightarrow> finished k s'"
  by (simp add: finished_def)

lemma finished_mark_done: "finished k s \<Longrightarrow> finished k (addResult r now (mark_done j s))"
  by (cases "j = k") (simp_all add: finished_def)

lemma finished_recordResult: "finished k s \<Longrightarrow> finished k (recordResult j t st err now s)"
  by (simp add: recordResult_def finished_mark_done)

lemma finished_runTest: "finished k s \<Longrightarrow> finished k (runTest h rt s)"
  by (simp add: finished_def probes_runTest nth_append)

lemma finished_handler: "finished k s \<Longrightarrow> finished k (handler e s)"
proof (cases e)
  case click
  assume "finished k s"
  then show ?thesis using click
    by (cases "isRunning s \<or> host s = []")
      (simp_all add: finished_def probes_handleStartStop nth_append)
next
  case (tick h)
  assume "finished k s"
  then show ?thesis using tick
    by (auto simp: finished_runTest split: option.splits)
qed (auto simp: fetch_then_def fetch_catch_def handleSuccess_def timeout_callback_def
      finished_mark_done finished_recordResult intro: finished_same)

lemma finished_step: "finished k s \<Longrightarrow> finished k (step e s)"
  using finished_handler[of k s e] by (simp add: finished_def)

lemma finished_exec: "finished k s \<Longrightarrow> finished k (exec s evs)"
  by (induction evs arbitrary: s) (simp_all add: finished_step)

lemma signal_suppressed:
  "finished k s \<Longrightarrow> signal_of e = Some k \<Longrightarrow> handler e s = s"
  by (cases e)
    (auto simp: finished_def pending_def handleSuccess_def timeout_callback_def recordResult_def)

lemma signal_recorded:
  assumes "signal_of e = Some k" and "testCounterRef (handler e s) \<noteq> testCounterRef s"
  shows "finished k (handler e s)"
  using assms
  by (cases e)
    (auto simp: finished_def pending_def issued_def fetch_then_def fetch_catch_def
      handleSuccess_def timeout_callback_def recordResult_def split: if_splits)

lemma appended_by_finished: "finished k s \<Longrightarrow> appended_by k s evs = 0"
proof (induction evs arbitrary: s)
  case Nil
  then show ?case by simp
next
  case (Cons e es)
  have "finished k (step e s)" using Cons.prems by (rule finished_step)
  then have "appended_by k (step e s) es = 0" by (rule Cons.IH)
  moreover have "signal_of e = Some k \<Longrightarrow> testCounterRef (step e s) = testCounterRef s"
    using signal_suppressed[OF Cons.prems] by simp
  ultimately show ?case by auto
qed

lemma appended_by_le_1: "appended_by k s evs \<le> 1"
proof (induction evs arbitrary: s)
  case Nil
  then show ?case by simp
next
  case (Cons e es)
  show ?case
  proof (cases "signal_of e = Some k \<and> testCounterRef (step e s) \<noteq> testCounterRef s")
    case True
    then have "finished k (handler e s)" by (simp add: signal_recorded)
    then have "finished k (step e s)" by (simp add: finished_def)
    then have "appended_by k (step e s) es = 0" by (rule appended_by_finished)
    then show ?thesis using True by simp
  next
    case False
    then show ?thesis using Cons.IH[of "step e s"] by auto
  qed
qed

lemma img_signal_signal_of: "img_signal k e \<Longrightarrow> signal_of e = Some k"
  by (cases e) simp_all

lemma first_signal_recorded:
  assumes "pending HTTP k s" and "img_signal k e"
  shows "testCounterRef (step e s) = testCounterRef s + 1"
    and "finished k (step e s)"
    and "length (results (step e s)) = min 40 (length (results s) + 1)"
  using assms
  by (cases e; simp add: pending_def issued_def handleSuccess_def timeout_callback_def
      recordResult_def finished_def results_addResult)+

text \<open>
  Claim C9: on the image technique the first of the three signals to reach a probe that has
  not completed is recorded (one append) and completes it; every later signal to a
  completed probe changes nothing; a completed probe stays completed; so over any trace the
  signals of one invocation append at most one outcome.
\<close>

theorem single_completion:
  "(pending HTTP k s \<and> img_signal k e \<longrightarrow>
      testCounterRef (step e s) = testCounterRef s + 1 \<and>
      length (results (step e s)) = min 40 (length (results s) + 1) \<and>
      finished k (step e s)) \<and>
   (finished k s \<and> img_signal k e \<longrightarrow>
      handler e s = s \<and> results (step e s) = results s \<and>
      testCounterRef (step e s) = testCounterRef s) \<and>
   (finished k s \<longrightarrow> finished k (exec s evs)) \<and>
   appended_by k s evs \<le> 1"
proof -
  have first: "pending HTTP k s \<and> img_signal k e \<longrightarrow>
      testCounterRef (step e s) = testCounterRef s + 1 \<and>
      length (results (step e s)) = min 40 (length (results s) + 1) \<and>
      finished k (step e s)"
    using first_signal_recorded[of k s e] by blast
  have later: "finished k s \<and> img_signal k e \<longrightarrow>
      handler e s = s \<and> results (step e s) = results s \<and>
      testCounterRef (step e s) = testCounterRef s"
  proof
    assume a: "finished k s \<and> img_signal k e"
    then have "handler e s = s"
      by (intro signal_suppressed[of k]) (simp_all add: img_signal_signal_of)
    then show "handler e s = s \<and> results (step e s) = results s \<and>
      testCounterRef (step e s) = testCounterRef s"
      by simp
  qed
  have stays: "finished k s \<longrightarrow> finished k (exec s evs)"
    using finished_exec[of k s evs] by blast
  show ?thesis
    using first later stays appended_by_le_1[of k s evs] by blast
qed

theorem single_completion_witness:
  "pending HTTP 1 (exec App_init (take 4 mixed_trace)) \<and>
   img_signal 1 (img_timeout 1 ''10:00:04'') \<and>
   testCounterRef (step (img_timeout 1 ''10:00:04'') (exec App_init (take 4 mixed_trace))) = 2 \<and>
   finished 1 (exec App_init (take 5 mixed_trace)) \<and>
   img_signal 1 (img_onload 1 2100 ''10:00:04'') \<and>
   handler (img_onload 1 2100 ''10:00:04'') (exec App_init (take 5 mixed_trace)) =
     exec App_init (take 5 mixed_trace) \<and>
   appended_by 1 App_init mixed_trace = 1"
proof -
  have a: "pending HTTP 1 (exec App_init (take 4 mixed_trace))" by code_simp
  have b: "testCounterRef (exec App_init (take 4 mixed_trace)) = 1" by code_simp
  have c: "finished 1 (exec App_init (take 5 mixed_trace))" by code_simp
  have d: "appended_by 1 App_init mixed_trace = 1" by code_simp
  from single_completion[of 1 "exec App_init (take 4 mixed_trace)" "img_timeout 1 ''10:00:04''" "[]"]
    single_completion[of 1 "exec App_init (take 5 mixed_trace)" "img_onload 1 2100 ''10:00:04''" "[]"]
  show ?thesis using a b c d by simp
qed

section \<open>Identifiers\<close>

lemma take_rev_upt:
  "n \<le> c \<Longrightarrow> take 40 (c # rev [c - n ..< c]) = rev [Suc c - min 40 (Suc n) ..< Suc c]"
proof -
  assume n: "n \<le> c"
  have "c # rev [c - n ..< c] = rev [c - n ..< Suc c]" by simp
  also have "take 40 \<dots> = rev (drop (length [c - n ..< Suc c] - 40) [c - n ..< Suc c])"
    by (rule take_rev)
  also have "\<dots> = rev [c - n + (Suc c - (c - n) - 40) ..< Suc c]"
    by (simp only: drop_upt length_upt)
  also have "c - n + (Suc c - (c - n) - 40) = Suc c - min 40 (Suc n)"
    using n by (simp add: min_def)
  finally show ?thesis .
qed

lemma consecutive_addResult:
  assumes "consecutive s"
  shows "consecutive (addResult r now s)"
proof -
  let ?n = "length (results s)" and ?c = "testCounterRef s"
  have n: "?n \<le> ?c" and ids: "map id_r (results s) = rev [?c - ?n ..< ?c]"
    using assms by (simp_all add: consecutive_def)
  have len: "length (results (addResult r now s)) = min 40 (Suc ?n)"
    by (simp add: results_addResult)
  have "map id_r (results (addResult r now s)) = take 40 (?c # map id_r (results s))"
    by (simp add: results_addResult take_map)
  also have "\<dots> = rev [Suc ?c - min 40 (Suc ?n) ..< Suc ?c]"
    by (simp only: ids take_rev_upt[OF n])
  finally show ?thesis
    using n by (simp add: consecutive_def len min_def del: upt_Suc)
qed

lemma consecutive_same:
  "consecutive s \<Longrightarrow> results s' = results s \<Longrightarrow> testCounterRef s' = testCounterRef s \<Longrightarrow>
   consecutive s'"
  by (simp add: consecutive_def)

lemma testCounterRef_handleStartStop:
  "testCounterRef (handleStartStop s) = (if isRunning s \<or> host s = [] then testCounterRef s else 0)"
  by (simp add: handleStartStop_def clearInterval_def setInterval_def Let_def split: option.splits)

lemma consecutive_mark_done: "consecutive (mark_done k s) = consecutive s"
  by (simp add: consecutive_def)

lemma consecutive_recordResult:
  "consecutive s \<Longrightarrow> consecutive (recordResult k t st err now s)"
  by (simp add: recordResult_def consecutive_addResult consecutive_mark_done)

lemma consecutive_handler: "consecutive s \<Longrightarrow> consecutive (handler e s)"
proof (cases e)
  case click
  assume "consecutive s"
  then show ?thesis using click
    by (simp add: consecutive_def results_handleStartStop testCounterRef_handleStartStop)
next
  case (tick h)
  assume "consecutive s"
  then show ?thesis using tick
    by (auto split: option.splits intro: consecutive_same)
qed (auto simp: fetch_then_def fetch_catch_def handleSuccess_def timeout_callback_def
      consecutive_addResult consecutive_mark_done consecutive_recordResult
      intro: consecutive_same)

lemma consecutive_step: "consecutive s \<Longrightarrow> consecutive (step e s)"
  using consecutive_handler[of s e] by (simp add: consecutive_def)

lemma consecutive_exec: "consecutive s \<Longrightarrow> consecutive (exec s evs)"
  by (induction evs arbitrary: s) (simp_all add: consecutive_step)

lemma consecutive_init: "consecutive App_init"
  by (simp add: consecutive_def App_init_def)

lemma testCounterRef_tick: "testCounterRef (handler (tick h) s) = testCounterRef s"
  by (simp split: option.splits)

text \<open>
  Claim C5, as amended: the identifier is assigned by \<open>addResult\<close>, when the outcome is
  appended, and the counter then advances by one, so the identifiers in the history are
  consecutive (newest first, ending just below the counter); issuing a probe at a tick
  leaves the counter unchanged; a start resets the counter to 0 and empties the history.
\<close>

theorem ids_assigned_on_append:
  "length (results (exec App_init evs)) \<le> testCounterRef (exec App_init evs) \<and>
   map id_r (results (exec App_init evs)) =
     rev [testCounterRef (exec App_init evs) - length (results (exec App_init evs))
          ..< testCounterRef (exec App_init evs)] \<and>
   testCounterRef (step (tick h) s) = testCounterRef s \<and>
   results (addResult r now s) = take 40 (stamp (testCounterRef s) (r, now) # results s) \<and>
   testCounterRef (addResult r now s) = testCounterRef s + 1 \<and>
   (\<not> isRunning s \<and> host s \<noteq> [] \<longrightarrow>
      testCounterRef (step click s) = 0 \<and> results (step click s) = [])"
proof -
  have "consecutive (exec App_init evs)"
    by (intro consecutive_exec consecutive_init)
  then have "length (results (exec App_init evs)) \<le> testCounterRef (exec App_init evs)"
    and "map id_r (results (exec App_init evs)) =
     rev [testCounterRef (exec App_init evs) - length (results (exec App_init evs))
          ..< testCounterRef (exec App_init evs)]"
    by (simp_all add: consecutive_def)
  then show ?thesis
    using testCounterRef_tick[of h s]
    by (simp add: results_addResult_stamp results_handleStartStop
        testCounterRef_handleStartStop del: handler.simps(4))
qed

theorem ids_assigned_on_append_witness:
  "map id_r (results (exec App_init scenario)) = [3, 2, 1, 0] \<and>
   testCounterRef (step click (exec App_init scenario)) = 4 \<and>
   testCounterRef (step click (step click (exec App_init scenario))) = 0 \<and>
   results (step click (step click (exec App_init scenario))) = []"
proof -
  have a: "testCounterRef (exec App_init scenario) = 4" by code_simp
  have b: "length (results (exec App_init scenario)) = 4" by code_simp
  have c: "\<not> isRunning (step click (exec App_init scenario))" by code_simp
  have d: "host (step click (exec App_init scenario)) \<noteq> []" by code_simp
  have e: "testCounterRef (step click (exec App_init scenario)) = 4" by code_simp
  have f: "[0 ..< 4] = [0, 1, 2, Suc 2]" by code_simp
  from ids_assigned_on_append[of scenario 1 "step click (exec App_init scenario)"]
  show ?thesis using a b c d e f by simp
qed

text \<open>
  The claim C5 as stated (the identifier is fixed when the probe is issued) fails: with the
  second and third probes both in flight, the second probe is recorded under 1 when it
  completes first and under 2 when the third completes before it. Likewise the probe of a
  run that was stopped, completing (after 1900 ms) in the next run, is recorded there under
  1, after the first probe of that run (30 ms).
\<close>

theorem ids_depend_on_completion_order:
  "pending HTTPS 1 (exec App_init overlap) \<and>
   pending HTTPS 2 (exec App_init overlap) \<and>
   id_r (hd (results (exec App_init (overlap @ [fetch_fulfilled 1 1990 ''08:00:04''])))) = 1 \<and>
   id_r (hd (results (exec App_init
      (overlap @ [fetch_fulfilled 2 30 ''08:00:04'', fetch_fulfilled 1 1990 ''08:00:04''])))) = 2 \<and>
   map id_r (results (exec App_init
      (overlap @ [fetch_fulfilled 2 30 ''08:00:04'', fetch_fulfilled 1 1990 ''08:00:04''])))
     = [2, 1, 0] \<and>
   map time (results (exec App_init
      (overlap @ [fetch_fulfilled 2 30 ''08:00:04'', fetch_fulfilled 1 1990 ''08:00:04''])))
     = [Some 1990, Some 30, Some 25] \<and>
   map id_r (results (exec App_init restart)) = [1, 0] \<and>
   map time (results (exec App_init restart)) = [Some 1900, Some 30]"
  by code_simp

end
